theory Spec2Isabelle
  imports Main
begin

section \<open>Strings as the parser sees them\<close>

text \<open>
  A string is a list of code units. The model covers the code units below 256; within
  that range the white space of \<^verbatim>\<open>String.prototype.trim\<close> and of the regular
  expression class \<^verbatim>\<open>\s\<close> is TAB, LF, VT, FF, CR, SPACE and NBSP, and the line
  terminators that \<^verbatim>\<open>.\<close> refuses are LF and CR.
\<close>

definition line_terminator :: "char \<Rightarrow> bool" where
  "line_terminator c = (c = CHR 0x0A \<or> c = CHR 0x0D)"

definition js_space :: "char \<Rightarrow> bool" where
  "js_space c =
     (c = CHR 0x09 \<or> c = CHR 0x0A \<or> c = CHR 0x0B \<or> c = CHR 0x0C \<or> c = CHR 0x0D
      \<or> c = CHR 0x20 \<or> c = CHR 0xA0)"

definition trim :: "string \<Rightarrow> string" where
  "trim s = rev (dropWhile js_space (rev (dropWhile js_space s)))"

text \<open>\<^verbatim>\<open>s.substring(a, b)\<close>: the arguments are clamped to the string and swapped when
  they come in the wrong order.\<close>

definition substring :: "string \<Rightarrow> nat \<Rightarrow> nat \<Rightarrow> string" where
  "substring s a b = take (max a b - min a b) (drop (min a b) s)"

text \<open>\<^verbatim>\<open>s.includes(sub)\<close>\<close>

definition str_includes :: "string \<Rightarrow> string \<Rightarrow> bool" where
  "str_includes s sub = (\<exists>i \<in> set [0 ..< Suc (length s)]. take (length sub) (drop i s) = sub)"

text \<open>\<^verbatim>\<open>s.split("\n")\<close> with a one-character separator: the empty string gives one
  empty piece.\<close>

fun split_on :: "char \<Rightarrow> string \<Rightarrow> string list" where
  "split_on d [] = [[]]"
| "split_on d (c # cs) =
     (if c = d then [] # split_on d cs
      else (case split_on d cs of [] \<Rightarrow> [[c]] | l # ls \<Rightarrow> (c # l) # ls))"

text \<open>The canonical form that the \<^verbatim>\<open>i\<close> flag compares: a lower-case ASCII letter
  becomes its capital. The patterns of this program hold ASCII characters only, and a
  character outside ASCII never canonicalises into ASCII, so leaving the other characters
  alone decides every comparison against a pattern character as the engine does.\<close>

definition canonicalize :: "char \<Rightarrow> char" where
  "canonicalize c =
     (case map_of (zip ''abcdefghijklmnopqrstuvwxyz'' ''ABCDEFGHIJKLMNOPQRSTUVWXYZ'') c of
        Some u \<Rightarrow> u | None \<Rightarrow> c)"

section \<open>Regular expressions\<close>

text \<open>
  The regular expressions of the source are terms of \<open>rx\<close>, one constructor per piece of
  syntax the source uses. \<open>run r text (caps, i)\<close> lists every way \<open>r\<close> can match \<open>text\<close>
  starting at index \<open>i\<close>, in the order in which a backtracking engine tries them: each
  result is the captures recorded so far and the index after the match. The quantifiers
  \<^verbatim>\<open>*\<close>, \<^verbatim>\<open>+\<close>, \<^verbatim>\<open>*?\<close> and \<^verbatim>\<open>{n}\<close> stand on character classes only, as
  in the source: \<open>run_len p text i\<close> is the length of the longest run of class \<open>p\<close> at
  index \<open>i\<close>, a greedy quantifier tries the longest run first and a lazy one the shortest.
  A group records its capture when it closes. No pattern of the source nests groups, and
  the only group that can be skipped, in the image extension pattern, is never read, so
  the list of captures is the array of the match without its element 0.
\<close>

datatype rx =
    REps
  | RBol
  | REol
  | RLit string
  | RLitI string
  | RStar "char \<Rightarrow> bool"
  | RPlus "char \<Rightarrow> bool"
  | RLazy "char \<Rightarrow> bool"
  | RRep nat "char \<Rightarrow> bool"
  | ROpt rx
  | RAlt rx rx
  | RSeq rx rx
  | RGroup rx

type_synonym mstate = "string list \<times> nat"

definition run_len :: "(char \<Rightarrow> bool) \<Rightarrow> string \<Rightarrow> nat \<Rightarrow> nat" where
  "run_len p text i = length (takeWhile p (drop i text))"

fun run :: "rx \<Rightarrow> string \<Rightarrow> mstate \<Rightarrow> mstate list" where
  "run REps text (caps, i) = [(caps, i)]"
| "run RBol text (caps, i) = (if i = 0 then [(caps, i)] else [])"
| "run REol text (caps, i) = (if i = length text then [(caps, i)] else [])"
| "run (RLit l) text (caps, i) =
     (if take (length l) (drop i text) = l then [(caps, i + length l)] else [])"
| "run (RLitI l) text (caps, i) =
     (if map canonicalize (take (length l) (drop i text)) = map canonicalize l
      then [(caps, i + length l)] else [])"
| "run (RStar p) text (caps, i) =
     map (\<lambda>k. (caps, i + k)) (rev [0 ..< Suc (run_len p text i)])"
| "run (RPlus p) text (caps, i) =
     map (\<lambda>k. (caps, i + k)) (rev [1 ..< Suc (run_len p text i)])"
| "run (RLazy p) text (caps, i) =
     map (\<lambda>k. (caps, i + k)) [0 ..< Suc (run_len p text i)]"
| "run (RRep n p) text (caps, i) = (if n \<le> run_len p text i then [(caps, i + n)] else [])"
| "run (ROpt r) text (caps, i) = run r text (caps, i) @ [(caps, i)]"
| "run (RAlt a b) text (caps, i) = run a text (caps, i) @ run b text (caps, i)"
| "run (RSeq a b) text (caps, i) = concat (map (run b text) (run a text (caps, i)))"
| "run (RGroup r) text (caps, i) =
     map (\<lambda>(caps', j). (caps' @ [substring text i j], j)) (run r text (caps, i))"

definition seqs :: "rx list \<Rightarrow> rx" where
  "seqs rs = foldr RSeq rs REps"

text \<open>The leftmost match at or after an index: the engine tries each start index in turn,
  the end of the input included, and keeps the first way to match there.\<close>

fun try_at :: "rx \<Rightarrow> string \<Rightarrow> nat list \<Rightarrow> (nat \<times> string list \<times> nat) option" where
  "try_at r text [] = None"
| "try_at r text (i # is) =
     (case run r text ([], i) of [] \<Rightarrow> try_at r text is | (caps, j) # _ \<Rightarrow> Some (i, caps, j))"

definition scan :: "rx \<Rightarrow> string \<Rightarrow> nat \<Rightarrow> (nat \<times> string list \<times> nat) option" where
  "scan r text start = try_at r text [start ..< Suc (length text)]"

text \<open>\<^verbatim>\<open>s.match(r)\<close> for a pattern without the \<^verbatim>\<open>g\<close> flag: the captures of the leftmost
  match. \<open>grp caps n\<close> is \<^verbatim>\<open>m[n]\<close> for \<open>n \<ge> 1\<close>, \<open>None\<close> standing for \<^verbatim>\<open>undefined\<close>.\<close>

definition rx_match :: "rx \<Rightarrow> string \<Rightarrow> string list option" where
  "rx_match r text = map_option (\<lambda>(k, caps, j). caps) (scan r text 0)"

definition grp :: "string list \<Rightarrow> nat \<Rightarrow> string option" where
  "grp caps n = (if 1 \<le> n \<and> n \<le> length caps then Some (caps ! (n - 1)) else None)"

lemma try_at_bounds:
  "try_at r t js = Some (k, caps, j) \<Longrightarrow> k \<in> set js"
  by (induction js) (auto split: list.splits)

lemma scan_bounds:
  "scan r t start = Some (k, caps, j) \<Longrightarrow> start \<le> k \<and> k \<le> length t"
  using try_at_bounds [of r t "[start ..< Suc (length t)]" k caps j]
  by (auto simp: scan_def)

lemma run_index_mono:
  "(caps', j) \<in> set (run r text (caps, i)) \<Longrightarrow> i \<le> j"
  by (induction r arbitrary: caps i caps' j) (fastforce split: if_splits)+

text \<open>
  \<^verbatim>\<open>s.replace(r, f)\<close> for a pattern with the \<^verbatim>\<open>g\<close> flag. Each round looks for the
  leftmost match at or after \<open>lastIndex\<close>, copies the text before it and the replacement,
  and goes on behind the match; behind an empty match the search moves one index on and
  the character stepped over is copied.
\<close>

function replace_loop :: "rx \<Rightarrow> (string list \<Rightarrow> string) \<Rightarrow> string \<Rightarrow> nat \<Rightarrow> string" where
  "replace_loop r f text lastIndex =
     (case scan r text lastIndex of
        None \<Rightarrow> drop lastIndex text
      | Some (k, caps, j) \<Rightarrow>
          substring text lastIndex k @ f caps @
          (if k < j then replace_loop r f text j
           else substring text k (Suc k) @ replace_loop r f text (Suc k)))"
  by pat_completeness auto
termination
proof (relation "measure (\<lambda>(r, f, text, lastIndex). Suc (length text) - lastIndex)", goal_cases)
  case 1
  show ?case by simp
next
  case (2 r f t lastIndex x2 k y caps j)
  then have "lastIndex \<le> k \<and> k \<le> length t"
    using scan_bounds [of r t lastIndex k caps j] by simp
  with 2 have "Suc (length t) - j < Suc (length t) - lastIndex"
    by arith
  then show ?case by simp
next
  case (3 r f t lastIndex x2 k y caps j)
  then have "lastIndex \<le> k \<and> k \<le> length t"
    using scan_bounds [of r t lastIndex k caps j] by simp
  then have "Suc (length t) - Suc k < Suc (length t) - lastIndex"
    by arith
  then show ?case by simp
qed

declare replace_loop.simps [simp del]

definition replace_all :: "rx \<Rightarrow> (string list \<Rightarrow> string) \<Rightarrow> string \<Rightarrow> string" where
  "replace_all r f text = replace_loop r f text 0"

text \<open>
  \<^verbatim>\<open>s.split(r)\<close>. \<open>p\<close> is the end of the last separator and \<open>q\<close> the index tried
  next; a match at \<open>q\<close> that ends where the last separator ended is passed over, any other
  match closes the piece from \<open>p\<close> to \<open>q\<close> and its captures follow the piece in the
  result. The end of the input is not tried.
\<close>

function split_loop :: "rx \<Rightarrow> string \<Rightarrow> nat \<Rightarrow> nat \<Rightarrow> string list" where
  "split_loop r text p q =
     (if q < length text then
        (case run r text ([], q) of
           [] \<Rightarrow> split_loop r text p (Suc q)
         | (caps, j) # _ \<Rightarrow>
             (let e = min j (length text) in
              if e = p then split_loop r text p (Suc q)
              else substring text p q # caps @ split_loop r text e e))
      else [substring text p (length text)])"
  by pat_completeness auto
termination
proof (relation "measure (\<lambda>(r, text, p, q). 2 * (length text - q) + (if p = q then 0 else 1))",
    goal_cases)
  case 1
  show ?case by simp
next
  case (2 r t p q)
  then show ?case by auto
next
  case (3 r t p q a lista x y xa)
  then show ?case by auto
next
  case (4 r t p q a lista x y xa)
  then have "(x, y) \<in> set (run r t ([], q))" by simp
  then have "q \<le> y" by (rule run_index_mono)
  with 4 show ?case by (auto simp: min_def)
qed

declare split_loop.simps [simp del]

definition rx_split :: "rx \<Rightarrow> string \<Rightarrow> string list" where
  "rx_split r text =
     (if text = [] then (if run r text ([], 0) \<noteq> [] then [] else [text])
      else split_loop r text 0 0)"

section \<open>The patterns of the parser\<close>

definition dot :: "char \<Rightarrow> bool" where
  "dot c = (\<not> line_terminator c)"

definition not_space :: "char \<Rightarrow> bool" where
  "not_space c = (\<not> js_space c)"

definition not_rbracket :: "char \<Rightarrow> bool" where
  "not_rbracket c = (c \<noteq> CHR '']'')"

definition not_rparen :: "char \<Rightarrow> bool" where
  "not_rparen c = (c \<noteq> CHR '')'')"

definition id_char :: "char \<Rightarrow> bool" where
  "id_char c =
     (c \<in> set ''abcdefghijklmnopqrstuvwxyzABCDEFGHIJKLMNOPQRSTUVWXYZ0123456789_-'')"

text \<open>\<^verbatim>\<open>/^Image URL: (.+)$/i\<close> and \<^verbatim>\<open>/^Video URL: (.+)$/i\<close>\<close>

definition imageUrlRegex :: rx where
  "imageUrlRegex = seqs [RBol, RLitI ''Image URL: '', RGroup (RPlus dot), REol]"

definition videoUrlRegex :: rx where
  "videoUrlRegex = seqs [RBol, RLitI ''Video URL: '', RGroup (RPlus dot), REol]"

text \<open>\<^verbatim>\<open>/\[([^\]]+)\]$$([^)]+)$$/\<close>, applied to the value of an image line, and
  \<^verbatim>\<open>/\[([^\]]*)\]$$([^)]+)$$/g\<close>, applied to a text block. Each \<^verbatim>\<open>$\<close> is the
  end-of-input assertion.\<close>

definition imageMarkdownRegex :: rx where
  "imageMarkdownRegex =
     seqs [RLit ''['', RGroup (RPlus not_rbracket), RLit '']'', REol, REol,
           RGroup (RPlus not_rparen), REol, REol]"

definition markdownLinkRegex :: rx where
  "markdownLinkRegex =
     seqs [RLit ''['', RGroup (RStar not_rbracket), RLit '']'', REol, REol,
           RGroup (RPlus not_rparen), REol, REol]"

text \<open>\<^verbatim>\<open>/https?:\/\/(?:www\.)?(?:youtube\.com\/(?:watch\?v=|embed\/)|youtu\.be\/)([a-zA-Z0-9_-]{11})/\<close>\<close>

definition youtubeRegex :: rx where
  "youtubeRegex =
     seqs [RLit ''http'', ROpt (RLit ''s''), RLit ''://'', ROpt (RLit ''www.''),
           RAlt (RSeq (RLit ''youtube.com/'') (RAlt (RLit ''watch?v='') (RLit ''embed/'')))
                (RLit ''youtu.be/''),
           RGroup (RRep 11 id_char)]"

text \<open>\<^verbatim>\<open>/\.(jpg|jpeg|png|gif|webp|svg|bmp)(\?.*)?$/i\<close>\<close>

definition imageExtRegex :: rx where
  "imageExtRegex =
     seqs [RLitI ''.'',
           RGroup (RAlt (RLitI ''jpg'') (RAlt (RLitI ''jpeg'') (RAlt (RLitI ''png'')
             (RAlt (RLitI ''gif'') (RAlt (RLitI ''webp'') (RAlt (RLitI ''svg'')
             (RLitI ''bmp''))))))),
           ROpt (RGroup (RSeq (RLitI ''?'') (RStar dot))),
           REol]"

text \<open>\<^verbatim>\<open>/(https?:\/\/[^\s]+)/g\<close>\<close>

definition urlRegex :: rx where
  "urlRegex = RGroup (seqs [RLit ''http'', ROpt (RLit ''s''), RLit ''://'', RPlus not_space])"

text \<open>\<^verbatim>\<open>/\*\*(.*?)\*\*/g\<close>, \<^verbatim>\<open>/\*(.*?)\*/g\<close> and \<^verbatim>\<open>/\n/g\<close>\<close>

definition boldRegex :: rx where
  "boldRegex = seqs [RLit ''**'', RGroup (RLazy dot), RLit ''**'']"

definition italicRegex :: rx where
  "italicRegex = seqs [RLit ''*'', RGroup (RLazy dot), RLit ''*'']"

definition newlineRegex :: rx where
  "newlineRegex = RLit [CHR 0x0A]"

text \<open>The replacement \<^verbatim>\<open>"<tag>$1</tag>"\<close>: \<^verbatim>\<open>$1\<close> is the first capture, or nothing
  when the group took no part in the match.\<close>

definition wrap_tag :: "string \<Rightarrow> string list \<Rightarrow> string" where
  "wrap_tag tag caps =
     ''<'' @ tag @ ''>'' @ (case grp caps 1 of None \<Rightarrow> [] | Some g \<Rightarrow> g) @ ''</'' @ tag @ ''>''"

section \<open>Parsed content\<close>

datatype ctype = Text | Youtube | Image | Link

record ParsedContent =
  type :: ctype
  content :: string
  videoId :: "string option"
  alt :: "string option"
  url :: "string option"
  linkText :: "string option"

definition text_part :: "string \<Rightarrow> ParsedContent" where
  "text_part c =
     \<lparr>type = Text, content = c, videoId = None, alt = None, url = None, linkText = None\<rparr>"

definition youtube_part :: "string \<Rightarrow> string option \<Rightarrow> ParsedContent" where
  "youtube_part c v =
     \<lparr>type = Youtube, content = c, videoId = v, alt = None, url = None, linkText = None\<rparr>"

definition image_part :: "string \<Rightarrow> string option \<Rightarrow> ParsedContent" where
  "image_part c a =
     \<lparr>type = Image, content = c, videoId = None, alt = a, url = None, linkText = None\<rparr>"

definition link_part :: "string \<Rightarrow> string option \<Rightarrow> ParsedContent" where
  "link_part u l =
     \<lparr>type = Link, content = u, videoId = None, alt = None, url = Some u, linkText = l\<rparr>"

text \<open>The display text of a bare URL:
  \<^verbatim>\<open>url.length > 50 ? url.substring(0, 47) + "..." : url\<close>\<close>

definition shorten :: "string \<Rightarrow> string" where
  "shorten u = (if length u > 50 then substring u 0 47 @ ''...'' else u)"

section \<open>processPlainTextWithUrls\<close>

text \<open>The chain of three replacements on a text piece: first the two emphasis patterns,
  then the newlines.\<close>

definition bold_italic :: "string \<Rightarrow> string" where
  "bold_italic part =
     replace_all italicRegex (wrap_tag ''em'') (replace_all boldRegex (wrap_tag ''strong'') part)"

definition emphasize :: "string \<Rightarrow> string" where
  "emphasize part = replace_all newlineRegex (\<lambda>caps. ''<br/>'') (bold_italic part)"

text \<open>The body of the \<^verbatim>\<open>forEach\<close>: the pieces at even indices are text, those at odd
  indices are the URLs that the split captured.\<close>

definition plain_part :: "nat \<Rightarrow> string \<Rightarrow> ParsedContent list" where
  "plain_part index part =
     (if index mod 2 = 0 then
        (if trim part \<noteq> [] then [text_part (trim (emphasize part))] else [])
      else
        (let u = trim part in
         case rx_match youtubeRegex u of
           Some youtubeMatch \<Rightarrow> [youtube_part u (grp youtubeMatch 1)]
         | None \<Rightarrow>
             if rx_match imageExtRegex u \<noteq> None then [image_part u (Some ''Image from chat'')]
             else [link_part u (Some (shorten u))]))"

fun plain_parts :: "nat \<Rightarrow> string list \<Rightarrow> ParsedContent list" where
  "plain_parts index [] = []"
| "plain_parts index (part # textParts) = plain_part index part @ plain_parts (Suc index) textParts"

definition processPlainTextWithUrls :: "string \<Rightarrow> ParsedContent list" where
  "processPlainTextWithUrls t = plain_parts 0 (rx_split urlRegex t)"

section \<open>processTextWithLinks\<close>

text \<open>
  The parser's functions that read a capture and call a method on it, or that loop on
  \<^verbatim>\<open>exec\<close>, return an option: \<open>None\<close> stands for a run that does not return a
  value, because a method is called on \<^verbatim>\<open>undefined\<close> (a TypeError) or because the
  loop never ends.
\<close>

definition markdown_part :: "string list \<Rightarrow> ParsedContent option" where
  "markdown_part m =
     (let linkText = grp m 1 in
      case grp m 2 of
        None \<Rightarrow> None
      | Some u \<Rightarrow>
          Some (case rx_match youtubeRegex u of
                  Some youtubeMatch \<Rightarrow> youtube_part u (grp youtubeMatch 1)
                | None \<Rightarrow>
                    if rx_match imageExtRegex u \<noteq> None \<or> str_includes u ''/images/''
                       \<or> str_includes u ''image''
                    then image_part u
                           (Some (case linkText of
                                    None \<Rightarrow> ''Image from chat''
                                  | Some l \<Rightarrow> if l \<noteq> [] then l else ''Image from chat''))
                    else link_part u linkText))"

definition before_link :: "string \<Rightarrow> nat \<Rightarrow> nat \<Rightarrow> ParsedContent list" where
  "before_link t lastIndex index =
     (if index > lastIndex then
        (let beforeText = substring t lastIndex index in
         if trim beforeText \<noteq> [] then processPlainTextWithUrls beforeText else [])
      else [])"

partial_function (option)
  link_loop :: "string \<Rightarrow> nat \<Rightarrow> ParsedContent list \<Rightarrow> (nat \<times> ParsedContent list) option"
where
  "link_loop t lastIndex parts =
     (case scan markdownLinkRegex t lastIndex of
        None \<Rightarrow> Some (lastIndex, parts)
      | Some (index, m, e) \<Rightarrow>
          (case markdown_part m of
             None \<Rightarrow> None
           | Some part \<Rightarrow> link_loop t e (parts @ before_link t lastIndex index @ [part])))"

declare link_loop.simps [code]

definition processTextWithLinks :: "string \<Rightarrow> ParsedContent list option" where
  "processTextWithLinks t =
     (case link_loop t 0 [] of
        None \<Rightarrow> None
      | Some (lastIndex, parts) \<Rightarrow>
          (let parts1 =
                 (if lastIndex < length t then
                    (let remainingText = drop lastIndex t in
                     if trim remainingText \<noteq> [] then parts @ processPlainTextWithUrls remainingText
                     else parts)
                  else parts)
           in Some (if length parts1 = 0 then parts1 @ processPlainTextWithUrls t else parts1)))"

section \<open>parseMessageContent\<close>

type_synonym pstate = "ParsedContent list \<times> string"

text \<open>The accumulated text block is handed to \<open>processTextWithLinks\<close> and emptied. In
  \<open>image_line\<close> a content that is \<^verbatim>\<open>undefined\<close> counts as the TypeError that the final
  filter of the function raises on it.\<close>

definition flush_text :: "pstate \<Rightarrow> pstate option" where
  "flush_text st =
     (case st of (parts, currentTextBlock) \<Rightarrow>
        if trim currentTextBlock \<noteq> [] then
          (case processTextWithLinks currentTextBlock of
             None \<Rightarrow> None
           | Some processedText \<Rightarrow>
               Some (if length processedText > 0 then parts @ processedText else parts, []))
        else Some (parts, currentTextBlock))"

definition image_line :: "pstate \<Rightarrow> string \<Rightarrow> pstate option" where
  "image_line st v =
     (case flush_text st of
        None \<Rightarrow> None
      | Some (parts, currentTextBlock) \<Rightarrow>
          (let imageContent = trim v in
           case rx_match imageMarkdownRegex imageContent of
             Some markdownLinkMatch \<Rightarrow>
               (case grp markdownLinkMatch 2 of
                  None \<Rightarrow> None
                | Some c \<Rightarrow> Some (parts @ [image_part c (grp markdownLinkMatch 1)], currentTextBlock))
           | None \<Rightarrow>
               Some (parts @ [image_part imageContent (Some ''Installation guide image'')],
                     currentTextBlock)))"

definition video_line :: "pstate \<Rightarrow> string \<Rightarrow> pstate option" where
  "video_line st v =
     (case flush_text st of
        None \<Rightarrow> None
      | Some (parts, currentTextBlock) \<Rightarrow>
          (case rx_match youtubeRegex v of
             Some youtubeMatch \<Rightarrow>
               Some (parts @ [youtube_part v (grp youtubeMatch 1)], currentTextBlock)
           | None \<Rightarrow> Some (parts @ [link_part v (Some (shorten v))], currentTextBlock)))"

definition other_line :: "pstate \<Rightarrow> string \<Rightarrow> pstate option" where
  "other_line st line =
     (case rx_match videoUrlRegex line of
        Some videoUrlMatch \<Rightarrow>
          (case grp videoUrlMatch 1 of
             None \<Rightarrow> None
           | Some v \<Rightarrow>
               if trim v \<noteq> ''N/A'' then video_line st v
               else if trim v = ''N/A'' then Some st
               else Some (fst st, snd st @ line @ [CHR 0x0A]))
      | None \<Rightarrow> Some (fst st, snd st @ line @ [CHR 0x0A]))"

definition parse_line :: "pstate \<Rightarrow> string \<Rightarrow> pstate option" where
  "parse_line st line =
     (case rx_match imageUrlRegex line of
        Some imageUrlMatch \<Rightarrow>
          (case grp imageUrlMatch 1 of
             None \<Rightarrow> None
           | Some v \<Rightarrow>
               if trim v \<noteq> ''N/A'' then image_line st v
               else if trim v = ''N/A'' then Some st
               else other_line st line)
      | None \<Rightarrow> other_line st line)"

text \<open>The loop over the lines, and the function. \<open>segments_of_lines\<close> is the function
  from the lines on: the loop, then the flush of the rest of the text block (the block is
  not read afterwards), then the filter that drops the blank parts.\<close>

fun parse_lines :: "pstate \<Rightarrow> string list \<Rightarrow> pstate option" where
  "parse_lines st [] = Some st"
| "parse_lines st (line # lines) =
     (case parse_line st line of None \<Rightarrow> None | Some st' \<Rightarrow> parse_lines st' lines)"

definition segments_of_lines :: "string list \<Rightarrow> ParsedContent list option" where
  "segments_of_lines lines =
     (case parse_lines ([], []) lines of
        None \<Rightarrow> None
      | Some st \<Rightarrow>
          (case flush_text st of
             None \<Rightarrow> None
           | Some (parts, currentTextBlock) \<Rightarrow>
               Some (filter (\<lambda>part. trim (content part) \<noteq> []) parts)))"

definition parseMessageContent :: "string \<Rightarrow> ParsedContent list option" where
  "parseMessageContent c = segments_of_lines (split_on (CHR 0x0A) c)"

section \<open>The parser on an engine that bounds the arguments of a call\<close>

text \<open>
  \<^verbatim>\<open>parts.push(...xs)\<close> passes every element of \<open>xs\<close> as an argument of one call. The
  language sets no bound on the number of arguments, and the functions above follow it.
  An engine does set one, and throws a RangeError beyond it. \<open>max_args\<close> is the bound of the
  engine, a parameter of the functions below, which are the same functions with each spread
  written as \<open>push_spread\<close>. \<open>processPlainTextWithUrls\<close> pushes one part at a time and is as
  above.
\<close>

definition push_spread ::
  "nat \<Rightarrow> ParsedContent list \<Rightarrow> ParsedContent list \<Rightarrow> ParsedContent list option" where
  "push_spread max_args parts xs = (if length xs \<le> max_args then Some (parts @ xs) else None)"

definition before_link_on ::
  "nat \<Rightarrow> string \<Rightarrow> nat \<Rightarrow> nat \<Rightarrow> ParsedContent list \<Rightarrow> ParsedContent list option" where
  "before_link_on max_args t lastIndex index parts =
     (if index > lastIndex then
        (let beforeText = substring t lastIndex index in
         if trim beforeText \<noteq> []
         then push_spread max_args parts (processPlainTextWithUrls beforeText)
         else Some parts)
      else Some parts)"

partial_function (option)
  link_loop_on ::
    "nat \<Rightarrow> string \<Rightarrow> nat \<Rightarrow> ParsedContent list \<Rightarrow> (nat \<times> ParsedContent list) option"
where
  "link_loop_on max_args t lastIndex parts =
     (case scan markdownLinkRegex t lastIndex of
        None \<Rightarrow> Some (lastIndex, parts)
      | Some (index, m, e) \<Rightarrow>
          (case before_link_on max_args t lastIndex index parts of
             None \<Rightarrow> None
           | Some parts1 \<Rightarrow>
               (case markdown_part m of
                  None \<Rightarrow> None
                | Some part \<Rightarrow> link_loop_on max_args t e (parts1 @ [part]))))"

declare link_loop_on.simps [code]

definition processTextWithLinks_on :: "nat \<Rightarrow> string \<Rightarrow> ParsedContent list option" where
  "processTextWithLinks_on max_args t =
     (case link_loop_on max_args t 0 [] of
        None \<Rightarrow> None
      | Some (lastIndex, parts) \<Rightarrow>
          (case (if lastIndex < length t then
                   (let remainingText = drop lastIndex t in
                    if trim remainingText \<noteq> []
                    then push_spread max_args parts (processPlainTextWithUrls remainingText)
                    else Some parts)
                 else Some parts) of
             None \<Rightarrow> None
           | Some parts1 \<Rightarrow>
               if length parts1 = 0
               then push_spread max_args parts1 (processPlainTextWithUrls t)
               else Some parts1))"

definition flush_text_on :: "nat \<Rightarrow> pstate \<Rightarrow> pstate option" where
  "flush_text_on max_args st =
     (case st of (parts, currentTextBlock) \<Rightarrow>
        if trim currentTextBlock \<noteq> [] then
          (case processTextWithLinks_on max_args currentTextBlock of
             None \<Rightarrow> None
           | Some processedText \<Rightarrow>
               if length processedText > 0
               then (case push_spread max_args parts processedText of
                       None \<Rightarrow> None
                     | Some parts1 \<Rightarrow> Some (parts1, []))
               else Some (parts, []))
        else Some (parts, currentTextBlock))"

definition image_line_on :: "nat \<Rightarrow> pstate \<Rightarrow> string \<Rightarrow> pstate option" where
  "image_line_on max_args st v =
     (case flush_text_on max_args st of
        None \<Rightarrow> None
      | Some (parts, currentTextBlock) \<Rightarrow>
          (let imageContent = trim v in
           case rx_match imageMarkdownRegex imageContent of
             Some markdownLinkMatch \<Rightarrow>
               (case grp markdownLinkMatch 2 of
                  None \<Rightarrow> None
                | Some c \<Rightarrow> Some (parts @ [image_part c (grp markdownLinkMatch 1)], currentTextBlock))
           | None \<Rightarrow>
               Some (parts @ [image_part imageContent (Some ''Installation guide image'')],
                     currentTextBlock)))"

definition video_line_on :: "nat \<Rightarrow> pstate \<Rightarrow> string \<Rightarrow> pstate option" where
  "video_line_on max_args st v =
     (case flush_text_on max_args st of
        None \<Rightarrow> None
      | Some (parts, currentTextBlock) \<Rightarrow>
          (case rx_match youtubeRegex v of
             Some youtubeMatch \<Rightarrow>
               Some (parts @ [youtube_part v (grp youtubeMatch 1)], currentTextBlock)
           | None \<Rightarrow> Some (parts @ [link_part v (Some (shorten v))], currentTextBlock)))"

definition other_line_on :: "nat \<Rightarrow> pstate \<Rightarrow> string \<Rightarrow> pstate option" where
  "other_line_on max_args st line =
     (case rx_match videoUrlRegex line of
        Some videoUrlMatch \<Rightarrow>
          (case grp videoUrlMatch 1 of
             None \<Rightarrow> None
           | Some v \<Rightarrow>
               if trim v \<noteq> ''N/A'' then video_line_on max_args st v
               else if trim v = ''N/A'' then Some st
               else Some (fst st, snd st @ line @ [CHR 0x0A]))
      | None \<Rightarrow> Some (fst st, snd st @ line @ [CHR 0x0A]))"

definition parse_line_on :: "nat \<Rightarrow> pstate \<Rightarrow> string \<Rightarrow> pstate option" where
  "parse_line_on max_args st line =
     (case rx_match imageUrlRegex line of
        Some imageUrlMatch \<Rightarrow>
          (case grp imageUrlMatch 1 of
             None \<Rightarrow> None
           | Some v \<Rightarrow>
               if trim v \<noteq> ''N/A'' then image_line_on max_args st v
               else if trim v = ''N/A'' then Some st
               else other_line_on max_args st line)
      | None \<Rightarrow> other_line_on max_args st line)"

fun parse_lines_on :: "nat \<Rightarrow> pstate \<Rightarrow> string list \<Rightarrow> pstate option" where
  "parse_lines_on max_args st [] = Some st"
| "parse_lines_on max_args st (line # lines) =
     (case parse_line_on max_args st line of
        None \<Rightarrow> None
      | Some st' \<Rightarrow> parse_lines_on max_args st' lines)"

definition segments_of_lines_on :: "nat \<Rightarrow> string list \<Rightarrow> ParsedContent list option" where
  "segments_of_lines_on max_args lines =
     (case parse_lines_on max_args ([], []) lines of
        None \<Rightarrow> None
      | Some st \<Rightarrow>
          (case flush_text_on max_args st of
             None \<Rightarrow> None
           | Some (parts, currentTextBlock) \<Rightarrow>
               Some (filter (\<lambda>part. trim (content part) \<noteq> []) parts)))"

definition parseMessageContent_on :: "nat \<Rightarrow> string \<Rightarrow> ParsedContent list option" where
  "parseMessageContent_on max_args c = segments_of_lines_on max_args (split_on (CHR 0x0A) c)"

section \<open>sendMessage\<close>

text \<open>
  A parsed JSON value, numbers taken as integers. A property read on \<^verbatim>\<open>null\<close> throws
  a TypeError; on any other value the properties \<^verbatim>\<open>data\<close>, \<^verbatim>\<open>message\<close> and
  \<^verbatim>\<open>session_id\<close> are those of an object and \<^verbatim>\<open>undefined\<close> (\<open>None\<close>) otherwise. The
  content of a message and the session id are such values: the source stores what the
  service sent, whatever its type.
\<close>

datatype json = JNull | JBool bool | JNum int | JStr string | JArr "json list"
  | JObj "(string \<times> json) list"

datatype failure = FetchRejected | ApiStatus nat | JsonRejected | TypeError

text \<open>\<^verbatim>\<open>x?.k\<close>\<close>

fun opt_get :: "json option \<Rightarrow> string \<Rightarrow> json option" where
  "opt_get (Some (JObj kvs)) k = map_of kvs k"
| "opt_get _ k = None"

text \<open>\<^verbatim>\<open>x.k\<close> for a parsed value \<open>x\<close>\<close>

fun get :: "json \<Rightarrow> string \<Rightarrow> failure + json option" where
  "get JNull k = Inl TypeError"
| "get x k = Inr (opt_get (Some x) k)"

fun truthy :: "json option \<Rightarrow> bool" where
  "truthy None = False"
| "truthy (Some JNull) = False"
| "truthy (Some (JBool b)) = b"
| "truthy (Some (JNum n)) = (n \<noteq> 0)"
| "truthy (Some (JStr s)) = (s \<noteq> [])"
| "truthy (Some _) = True"

text \<open>\<^verbatim>\<open>x || d\<close>\<close>

definition js_or :: "json option \<Rightarrow> json \<Rightarrow> json" where
  "js_or x d = (case x of Some v \<Rightarrow> if truthy x then v else d | None \<Rightarrow> d)"

record Message =
  msg_id :: string
  msg_content :: json
  isUser :: bool
  timestamp :: nat
  rawData :: "json option"

record chat =
  inputMessage :: string
  isLoading :: bool
  messages :: "Message list"
  sessionId :: json

text \<open>How the POST settles: the fetch is rejected, or a response arrives with a status and
  a body that \<^verbatim>\<open>res.json()\<close> parses (\<open>Some\<close>) or rejects (\<open>None\<close>).\<close>

datatype outcome = Rejected | Response nat "json option"

fun decimal :: "nat \<Rightarrow> string" where
  "decimal n =
     (if n < 10 then [char_of (48 + n)] else decimal (n div 10) @ [char_of (48 + n mod 10)])"

declare decimal.simps [simp del]

text \<open>The part of \<open>sendMessage\<close> before the \<^verbatim>\<open>await\<close>: \<open>None\<close> is the early return.
  \<open>now\<close> is \<^verbatim>\<open>Date.now()\<close> and \<open>stamp\<close> is \<^verbatim>\<open>new Date()\<close>.\<close>

definition sendMessage_begin :: "nat \<Rightarrow> nat \<Rightarrow> chat \<Rightarrow> chat option" where
  "sendMessage_begin now stamp st =
     (let currentMessage = trim (inputMessage st) in
      if currentMessage = [] \<or> isLoading st then None
      else
        (let userMessage =
               \<lparr>msg_id = ''user-'' @ decimal now, msg_content = JStr currentMessage,
                isUser = True, timestamp = stamp, rawData = None\<rparr>
         in Some (st\<lparr>messages := messages st @ [userMessage], inputMessage := [],
                     isLoading := True\<rparr>)))"

text \<open>The \<^verbatim>\<open>try\<close> block from the point where the POST has settled: the state it
  leaves and what it threw, if anything.\<close>

definition sendMessage_try :: "outcome \<Rightarrow> nat \<Rightarrow> nat \<Rightarrow> chat \<Rightarrow> chat \<times> failure option" where
  "sendMessage_try res now stamp st =
     (case res of
        Rejected \<Rightarrow> (st, Some FetchRejected)
      | Response status body \<Rightarrow>
          if \<not> (200 \<le> status \<and> status \<le> 299) then (st, Some (ApiStatus status))
          else
            (case body of
               None \<Rightarrow> (st, Some JsonRejected)
             | Some data \<Rightarrow>
                 (let st1 = st\<lparr>sessionId :=
                             js_or (opt_get (opt_get (Some data) ''data'') ''session_id'') (JStr [])\<rparr>
                  in case get data ''data'' of
                       Inl e \<Rightarrow> (st1, Some e)
                     | Inr d \<Rightarrow>
                         (let assistantMessage =
                                \<lparr>msg_id = ''assistant-'' @ decimal now,
                                 msg_content =
                                   js_or (opt_get d ''message'')
                                     (JStr ''I couldn't process that request.''),
                                 isUser = False, timestamp = stamp, rawData = d\<rparr>
                          in (st1\<lparr>messages := messages st1 @ [assistantMessage]\<rparr>, None)))))"

definition errorMessage :: "nat \<Rightarrow> nat \<Rightarrow> Message" where
  "errorMessage now stamp =
     \<lparr>msg_id = ''error-'' @ decimal now,
      msg_content = JStr ''Sorry, there was an error processing your request.'',
      isUser = False, timestamp = stamp, rawData = None\<rparr>"

text \<open>\<^verbatim>\<open>try\<close>, \<^verbatim>\<open>catch\<close> and \<^verbatim>\<open>finally\<close>, applied to the state in which the POST
  settles.\<close>

definition sendMessage_settle :: "outcome \<Rightarrow> nat \<Rightarrow> nat \<Rightarrow> chat \<Rightarrow> chat" where
  "sendMessage_settle res now stamp st =
     (case sendMessage_try res now stamp st of
        (st1, Some e) \<Rightarrow>
          st1\<lparr>messages := messages st1 @ [errorMessage now stamp], isLoading := False\<rparr>
      | (st1, None) \<Rightarrow> st1\<lparr>isLoading := False\<rparr>)"

definition sendMessage :: "nat \<Rightarrow> nat \<Rightarrow> outcome \<Rightarrow> nat \<Rightarrow> nat \<Rightarrow> chat \<Rightarrow> chat" where
  "sendMessage now0 stamp0 res now stamp st =
     (case sendMessage_begin now0 stamp0 st of
        None \<Rightarrow> st
      | Some st1 \<Rightarrow> sendMessage_settle res now stamp st1)"

text \<open>The failures that the claim names: a rejected fetch, a status outside 200 to 299, a
  body that does not parse.\<close>

fun failed :: "outcome \<Rightarrow> bool" where
  "failed Rejected = True"
| "failed (Response status body) = (\<not> (200 \<le> status \<and> status \<le> 299) \<or> body = None)"

section \<open>Notions for the statements\<close>

text \<open>A line begins with a sentinel when its first characters are the sentinel's up to
  letter case. \<open>flushed\<close> is the state that a flush of the text block leaves.\<close>

definition sentinel_prefix :: "string \<Rightarrow> string \<Rightarrow> bool" where
  "sentinel_prefix pre p = (map canonicalize p = map canonicalize pre)"

definition flushed :: "pstate \<Rightarrow> pstate" where
  "flushed st =
     (if trim (snd st) \<noteq> [] then (fst st @ processPlainTextWithUrls (snd st), []) else st)"

text \<open>\<open>url_at t i\<close>: a URL of the pattern \<^verbatim>\<open>https?:\/\/[^\s]+\<close> begins at index \<open>i\<close>
  of \<open>t\<close>.\<close>

definition url_at :: "string \<Rightarrow> nat \<Rightarrow> bool" where
  "url_at t i =
     (take 4 (drop i t) = ''http''
      \<and> (take 1 (drop (i + 4) t) = ''s'' \<and> take 3 (drop (i + 5) t) = ''://''
             \<and> 1 \<le> run_len not_space t (i + 8)
           \<or> take 3 (drop (i + 4) t) = ''://'' \<and> 1 \<le> run_len not_space t (i + 7)))"

text \<open>The link segment of the bare URL \<^verbatim>\<open>http://a\<close>.\<close>

definition url_a :: ParsedContent where
  "url_a = link_part ''http://a'' (Some ''http://a'')"

text \<open>\<open>na_line\<close>: the lines on which the loop of \<open>parseMessageContent\<close> takes one of
  its two \<^verbatim>\<open>continue\<close> branches. \<open>strip_na\<close> removes them from a text:
  \<^verbatim>\<open>t.split("\n").filter(l => !na_line(l)).join("\n")\<close>.\<close>

definition na_line :: "string \<Rightarrow> bool" where
  "na_line line =
     (case rx_match imageUrlRegex line of
        Some m \<Rightarrow> (case grp m 1 of Some v \<Rightarrow> trim v = ''N/A'' | None \<Rightarrow> False)
      | None \<Rightarrow>
          (case rx_match videoUrlRegex line of
             Some m \<Rightarrow> (case grp m 1 of Some v \<Rightarrow> trim v = ''N/A'' | None \<Rightarrow> False)
           | None \<Rightarrow> False))"

fun join_lines :: "string list \<Rightarrow> string" where
  "join_lines [] = []"
| "join_lines [l] = l"
| "join_lines (l # ls) = l @ [CHR 0x0A] @ join_lines ls"

definition strip_na :: "string \<Rightarrow> string" where
  "strip_na t = join_lines (filter (\<lambda>l. \<not> na_line l) (split_on (CHR 0x0A) t))"


section \<open>Trimming\<close>

lemma trim_eq_Nil: "trim s = [] \<longleftrightarrow> (\<forall>c \<in> set s. js_space c)"
proof
  assume "trim s = []"
  then have "\<forall>c \<in> set (dropWhile js_space s). js_space c"
    by (simp add: trim_def dropWhile_eq_Nil_conv)
  then have "dropWhile js_space s = []"
    using hd_dropWhile [of js_space s] by (cases "dropWhile js_space s") auto
  then show "\<forall>c \<in> set s. js_space c"
    by (simp add: dropWhile_eq_Nil_conv)
next
  assume "\<forall>c \<in> set s. js_space c"
  then have h: "dropWhile js_space s = []"
    by (simp add: dropWhile_eq_Nil_conv)
  show "trim s = []"
    by (simp only: trim_def h rev.simps dropWhile.simps)
qed



section \<open>The markdown patterns match nothing\<close>

lemma try_at_none: "\<forall>i \<in> set js. run r t ([], i) = [] \<Longrightarrow> try_at r t js = None"
  by (induction js) auto

lemma scan_none: "(\<And>i. run r t ([], i) = []) \<Longrightarrow> scan r t start = None"
  by (simp add: scan_def try_at_none)

lemma run_seq_nil_right: "(\<And>st'. run b t st' = []) \<Longrightarrow> run (RSeq a b) t st = []"
  by (cases st) simp

text \<open>Behind an end-of-input assertion no character is left for a \<^verbatim>\<open>+\<close> to take.\<close>

lemma run_eol_plus: "run (RSeq REol (RSeq (RGroup (RPlus p)) r)) t st = []"
  by (cases st) (simp add: run_len_def)

lemma run_markdownLinkRegex: "run markdownLinkRegex t st = []"
  unfolding markdownLinkRegex_def seqs_def foldr.simps o_def
  by (intro run_seq_nil_right run_eol_plus)

lemma run_imageMarkdownRegex: "run imageMarkdownRegex t st = []"
  unfolding imageMarkdownRegex_def seqs_def foldr.simps o_def
  by (intro run_seq_nil_right run_eol_plus)

lemma link_loop_start: "link_loop t 0 [] = Some (0, [])"
  by (subst link_loop.simps) (simp add: scan_none run_markdownLinkRegex)

lemma processTextWithLinks_plain:
  "processTextWithLinks t = Some (processPlainTextWithUrls t)"
  by (simp add: processTextWithLinks_def link_loop_start Let_def)

section \<open>The sentinel patterns\<close>

lemma filter_sum_upt:
  "filter (\<lambda>k. i + k = m) [a ..< b] = (if i \<le> m \<and> a \<le> m - i \<and> m - i < b then [m - i] else [])"
  by (induction b) auto

lemma concat_map_if: "concat (map (\<lambda>k. if P k then [f k] else []) xs) = map f (filter P xs)"
  by (induction xs) auto

lemma run_len_le: "run_len p t i \<le> length t - i"
  using length_takeWhile_le [of p "drop i t"] by (simp add: run_len_def)

lemma run_len_full: "run_len p t i = length t - i \<longleftrightarrow> (\<forall>c \<in> set (drop i t). p c)"
proof -
  have "length (takeWhile p (drop i t)) = length (drop i t) \<longleftrightarrow> takeWhile p (drop i t) = drop i t"
    by (metis takeWhile_eq_take take_all_iff order_refl)
  then show ?thesis
    by (simp add: run_len_def takeWhile_eq_all_conv)
qed

lemma run_seq: "run (RSeq a b) t st = concat (map (run b t) (run a t st))"
  by (cases st) simp

lemma run_eol_eps: "run (RSeq REol REps) t (c, j) = (if j = length t then [(c, j)] else [])"
  by simp

lemma run_group_plus:
  "run (RGroup (RPlus p)) t (caps, i) =
     map (\<lambda>k. (caps @ [substring t i (i + k)], i + k)) (rev [1 ..< Suc (run_len p t i)])"
  by (simp add: comp_def del: upt_Suc)

lemma run_group_plus_eol:
  "run (RSeq (RGroup (RPlus p)) (RSeq REol REps)) t (caps, i) =
     (if i < length t \<and> (\<forall>c \<in> set (drop i t). p c) then [(caps @ [drop i t], length t)] else [])"
proof -
  let ?n = "run_len p t i"
  have "run (RSeq (RGroup (RPlus p)) (RSeq REol REps)) t (caps, i) =
      concat (map (\<lambda>k. if i + k = length t
                         then [(caps @ [substring t i (i + k)], i + k)] else [])
                 (rev [1 ..< Suc ?n]))"
    by (simp only: run_seq [of "RGroup (RPlus p)"] run_group_plus map_map comp_def run_eol_eps)
  also have "\<dots> = map (\<lambda>k. (caps @ [substring t i (i + k)], i + k))
              (rev (filter (\<lambda>k. i + k = length t) [1 ..< Suc ?n]))"
    by (simp only: concat_map_if rev_filter)
  also have "\<dots> = (if i < length t \<and> ?n = length t - i
       then [(caps @ [substring t i (i + (length t - i))], i + (length t - i))] else [])"
    using run_len_le [of p t i] by (auto simp: filter_sum_upt simp del: upt_Suc)
  also have "\<dots> = (if i < length t \<and> (\<forall>c \<in> set (drop i t). p c)
       then [(caps @ [drop i t], length t)] else [])"
    by (auto simp: run_len_full substring_def)
  finally show ?thesis .
qed

lemma scan_bol:
  "scan (RSeq RBol r) t 0 =
     (case run r t ([], 0) of [] \<Rightarrow> None | (caps, j) # _ \<Rightarrow> Some (0, caps, j))"
proof -
  have none: "try_at (RSeq RBol r) t [Suc 0 ..< Suc (length t)] = None"
    by (rule try_at_none) auto
  have first: "run (RSeq RBol r) t ([], 0) = run r t ([], 0)"
    by simp
  have "[0 ..< Suc (length t)] = 0 # [Suc 0 ..< Suc (length t)]"
    by (rule upt_conv_Cons) simp
  then have "scan (RSeq RBol r) t 0 = try_at (RSeq RBol r) t (0 # [Suc 0 ..< Suc (length t)])"
    by (simp only: scan_def)
  also have "\<dots> = (case run r t ([], 0) of [] \<Rightarrow> None | (caps, j) # _ \<Rightarrow> Some (0, caps, j))"
    by (simp only: try_at.simps none first)
  finally show ?thesis .
qed

lemma sentinel_match:
  "rx_match (seqs [RBol, RLitI pre, RGroup (RPlus p), REol]) line =
     (if map canonicalize (take (length pre) line) = map canonicalize pre
         \<and> length pre < length line \<and> (\<forall>c \<in> set (drop (length pre) line). p c)
      then Some [drop (length pre) line] else None)"
proof -
  have "run (RSeq (RLitI pre) (RSeq (RGroup (RPlus p)) (RSeq REol REps))) line ([], 0) =
     (if map canonicalize (take (length pre) line) = map canonicalize pre
      then run (RSeq (RGroup (RPlus p)) (RSeq REol REps)) line ([], length pre) else [])"
    by simp
  then show ?thesis
    unfolding rx_match_def seqs_def foldr.simps o_def scan_bol
    by (simp add: run_group_plus_eol del: run.simps)
qed

section \<open>Every line is parsed\<close>

lemma sentinel_prefix_length: "sentinel_prefix pre p \<Longrightarrow> length p = length pre"
  unfolding sentinel_prefix_def by (metis length_map)

lemma sentinel_line_match:
  assumes "sentinel_prefix pre p"
  shows "rx_match (seqs [RBol, RLitI pre, RGroup (RPlus dot), REol]) (p @ v) =
     (if v \<noteq> [] \<and> (\<forall>c \<in> set v. dot c) then Some [v] else None)"
  using assms sentinel_prefix_length [OF assms]
  by (auto simp: sentinel_match sentinel_prefix_def)

lemma sentinel_other_prefix:
  assumes "sentinel_prefix pre' p" "length pre' = length pre"
    "map canonicalize pre' \<noteq> map canonicalize pre"
  shows "rx_match (seqs [RBol, RLitI pre, RGroup (RPlus dot), REol]) (p @ v) = None"
  using assms sentinel_prefix_length [OF assms(1)]
  by (auto simp: sentinel_match sentinel_prefix_def)

lemma sentinel_shape:
  "rx_match (seqs [RBol, RLitI pre, RGroup (RPlus p), REol]) line = Some caps \<Longrightarrow>
     caps = [drop (length pre) line]"
  by (auto simp: sentinel_match split: if_splits)

lemma video_not_image: "map canonicalize ''Video URL: '' \<noteq> map canonicalize ''Image URL: ''"
  by (simp add: canonicalize_def)

lemma flush_text_flushed: "flush_text st = Some (flushed st)"
  by (cases st) (simp add: flush_text_def flushed_def processTextWithLinks_plain)

lemma image_markdown_none: "rx_match imageMarkdownRegex s = None"
  by (simp add: rx_match_def scan_none run_imageMarkdownRegex)

lemma image_line_eq:
  "image_line st v =
     Some (fst (flushed st) @ [image_part (trim v) (Some ''Installation guide image'')],
           snd (flushed st))"
  by (simp add: image_line_def flush_text_flushed image_markdown_none split: prod.splits)

lemma video_line_eq:
  "video_line st v =
     Some (fst (flushed st) @
             [case rx_match youtubeRegex v of
                Some youtubeMatch \<Rightarrow> youtube_part v (grp youtubeMatch 1)
              | None \<Rightarrow> link_part v (Some (shorten v))],
           snd (flushed st))"
  by (simp add: video_line_def flush_text_flushed split: prod.splits option.splits)

lemma grp_single: "grp [v] 1 = Some v" "grp [v] (Suc 0) = Some v"
  by (simp_all add: grp_def)

lemma parse_line_total: "\<exists>st'. parse_line st line = Some st'"
proof -
  have other: "\<exists>st'. other_line st line = Some st'"
    unfolding other_line_def videoUrlRegex_def
    by (auto simp: video_line_eq grp_single split: option.splits dest!: sentinel_shape)
  show ?thesis
    unfolding parse_line_def imageUrlRegex_def
    using other
    by (auto simp: image_line_eq grp_single split: option.splits dest!: sentinel_shape)
qed

lemma parse_lines_total: "\<exists>st'. parse_lines st ls = Some st'"
proof (induction ls arbitrary: st)
  case Nil
  show ?case by simp
next
  case (Cons l ls)
  obtain st1 where "parse_line st l = Some st1"
    using parse_line_total by blast
  with Cons show ?case by simp
qed

lemma parseMessageContent_total: "\<exists>parts. parseMessageContent t = Some parts"
proof -
  obtain st where "parse_lines ([], []) (split_on (CHR 0x0A) t) = Some st"
    using parse_lines_total by blast
  then show ?thesis
    by (simp add: parseMessageContent_def segments_of_lines_def flush_text_flushed
        split: prod.splits)
qed

section \<open>Sentinel lines\<close>

lemma image_line_match:
  "sentinel_prefix ''Image URL: '' p \<Longrightarrow>
     rx_match imageUrlRegex (p @ v) = (if v \<noteq> [] \<and> (\<forall>c \<in> set v. dot c) then Some [v] else None)"
  unfolding imageUrlRegex_def by (rule sentinel_line_match)

lemma video_line_match:
  "sentinel_prefix ''Video URL: '' p \<Longrightarrow>
     rx_match videoUrlRegex (p @ v) = (if v \<noteq> [] \<and> (\<forall>c \<in> set v. dot c) then Some [v] else None)"
  unfolding videoUrlRegex_def by (rule sentinel_line_match)

lemma video_line_no_image:
  "sentinel_prefix ''Video URL: '' p \<Longrightarrow> rx_match imageUrlRegex (p @ v) = None"
  unfolding imageUrlRegex_def
  by (rule sentinel_other_prefix [where pre' = "''Video URL: ''"]) (simp_all add: canonicalize_def)


lemma parse_line_image_na:
  assumes "sentinel_prefix ''Image URL: '' p" "\<forall>c \<in> set v. dot c" "trim v = ''N/A''"
  shows "parse_line st (p @ v) = Some st"
proof -
  have "v \<noteq> []" using assms(3) by (auto simp: trim_def)
  then show ?thesis
    using assms by (simp add: parse_line_def image_line_match grp_single)
qed

lemma parse_line_video_na:
  assumes "sentinel_prefix ''Video URL: '' p" "\<forall>c \<in> set v. dot c" "trim v = ''N/A''"
  shows "parse_line st (p @ v) = Some st"
proof -
  have "v \<noteq> []" using assms(3) by (auto simp: trim_def)
  then show ?thesis
    using assms
    by (simp add: parse_line_def other_line_def video_line_no_image video_line_match grp_single)
qed



lemma parse_lines_append:
  "parse_lines st (xs @ ys) =
     (case parse_lines st xs of None \<Rightarrow> None | Some st' \<Rightarrow> parse_lines st' ys)"
  by (induction xs arbitrary: st) (auto split: option.splits)

lemma split_on_not_nil: "split_on d s \<noteq> []"
  by (induction s) (auto split: list.splits)

lemma split_on_append: "split_on d (a @ d # b) = split_on d a @ split_on d b"
  using split_on_not_nil [of d]
  by (induction a) (auto split: list.splits)

lemma split_on_single: "d \<notin> set s \<Longrightarrow> split_on d s = [s]"
  by (induction s) auto

lemma parseMessageContent_lines:
  "parseMessageContent c = segments_of_lines (split_on (CHR 0x0A) c)"
  by (simp add: parseMessageContent_def)

lemma segments_drop_line:
  assumes "\<And>st. parse_line st l = Some st"
  shows "segments_of_lines (pre @ l # post) = segments_of_lines (pre @ post)"
  using assms by (simp add: segments_of_lines_def parse_lines_append split: option.splits)

lemma canonicalize_newline: "canonicalize c = CHR 0x0A \<Longrightarrow> c = CHR 0x0A"
  by (auto simp: canonicalize_def split: if_splits)

lemma sentinel_prefix_no_newline:
  assumes "sentinel_prefix pre p" "CHR 0x0A \<notin> set (map canonicalize pre)"
  shows "CHR 0x0A \<notin> set p"
proof
  assume "CHR 0x0A \<in> set p"
  then have "canonicalize (CHR 0x0A) \<in> set (map canonicalize p)"
    by simp
  moreover have "canonicalize (CHR 0x0A) = CHR 0x0A"
    by (simp add: canonicalize_def)
  moreover have "set (map canonicalize p) = set (map canonicalize pre)"
    using assms(1) by (simp only: sentinel_prefix_def)
  ultimately show False
    using assms(2) by simp
qed

lemma sentinel_line_single:
  assumes "sentinel_prefix ''Image URL: '' p \<or> sentinel_prefix ''Video URL: '' p"
    "\<forall>c \<in> set v. dot c"
  shows "split_on (CHR 0x0A) (p @ v) = [p @ v]"
proof -
  have "CHR 0x0A \<notin> set p"
    using assms(1)
    by (auto dest!: sentinel_prefix_no_newline simp: canonicalize_def)
  moreover have "CHR 0x0A \<notin> set v"
    using assms(2) by (auto simp: dot_def line_terminator_def)
  ultimately show ?thesis
    by (simp add: split_on_single)
qed





lemma trim_Nil: "trim [] = []"
  by (simp add: trim_def)


section \<open>Text without sentinels and URLs\<close>










lemma run_url: "run urlRegex t (caps, i) \<noteq> [] \<longleftrightarrow> url_at t i"
  unfolding urlRegex_def seqs_def url_at_def
  by (auto simp add: comp_def numeral_eq_Suc simp del: upt_Suc split: if_splits)










section \<open>Text without its N/A lines\<close>




lemma split_on_pieces: "\<forall>l \<in> set (split_on d t). d \<notin> set l"
  by (induction t) (auto split: list.splits)

lemma split_join_lines:
  "ls \<noteq> [] \<Longrightarrow> \<forall>l \<in> set ls. CHR 0x0A \<notin> set l \<Longrightarrow> split_on (CHR 0x0A) (join_lines ls) = ls"
proof (induction ls rule: join_lines.induct)
  case 1
  then show ?case by simp
next
  case (2 l)
  then show ?case by (simp add: split_on_single)
next
  case (3 l l' ls)
  then show ?case
    using split_on_append [of "CHR 0x0A" l "join_lines (l' # ls)"]
    by (simp add: split_on_single)
qed



lemma strip_na_idem: "strip_na (strip_na t) = strip_na t"
proof -
  let ?ls = "filter (\<lambda>l. \<not> na_line l) (split_on (CHR 0x0A) t)"
  show ?thesis
  proof (cases "?ls = []")
    case True
    have "\<not> na_line []" by code_simp
    then have "strip_na [] = []" by (simp add: strip_na_def)
    then show ?thesis
      using True by (simp add: strip_na_def)
  next
    case False
    have "\<forall>l \<in> set ?ls. CHR 0x0A \<notin> set l"
      using split_on_pieces [of "CHR 0x0A" t] by simp
    with False have "split_on (CHR 0x0A) (join_lines ?ls) = ?ls"
      by (rule split_join_lines)
    then show ?thesis
      by (simp add: strip_na_def)
  qed
qed

section \<open>A text of many URLs\<close>

lemma drop_after: "drop i t = l @ rest \<Longrightarrow> length l = n \<Longrightarrow> drop (i + n) t = rest"
proof -
  assume h: "drop i t = l @ rest" and n: "length l = n"
  have "drop (i + n) t = drop n (drop i t)"
    by (simp add: add.commute)
  then show ?thesis by (simp add: h n [symmetric])
qed

lemma run_url_a:
  assumes h: "drop i t = ''http://a '' @ rest"
  shows "run urlRegex t ([], i) = [([''http://a''], i + 8)]"
proof -
  have h4: "drop (i + 4) t = ''://a '' @ rest"
    by (rule drop_after [of i t "''http''"]) (simp_all add: h)
  have h7: "drop (i + 7) t = ''a '' @ rest"
    by (rule drop_after [of i t "''http://''"]) (simp_all add: h)
  have l: "run_len not_space t (i + 7) = 1"
    by (simp add: run_len_def h7 not_space_def js_space_def)
  have a: "run (RLit ''http'') t ([], i) = [([], i + 4)]"
    by (simp add: h)
  have b: "run (ROpt (RLit ''s'')) t ([], i + 4) = [([], i + 4)]"
    by (simp add: h4)
  have c: "run (RLit ''://'') t ([], i + 4) = [([], i + 7)]"
    using h4 by (simp add: numeral_eq_Suc)
  have d: "run (RPlus not_space) t ([], i + 7) = [([], i + 8)]"
    using l by (simp add: numeral_eq_Suc)
  have e: "run REps t ([], i + 8) = [([], i + 8)]"
    by simp
  have s: "substring t i (i + 8) = ''http://a''"
    by (simp add: substring_def h)
  have "run (seqs [RLit ''http'', ROpt (RLit ''s''), RLit ''://'', RPlus not_space]) t ([], i)
      = [([], i + 8)]"
    by (simp only: seqs_def foldr.simps o_def id_apply run_seq a b c d e list.map concat.simps
        append.simps append_Nil2)
  then show ?thesis
    by (simp only: urlRegex_def run.simps list.map prod.case append.simps s)
qed


lemma run_url_other:
  assumes "drop i t = c # rest" "c \<noteq> CHR ''h''"
  shows "run urlRegex t ([], i) = []"
proof -
  have "\<not> url_at t i"
    using assms by (simp add: url_at_def numeral_eq_Suc)
  then show ?thesis
    using run_url [of t "[]" i] by blast
qed

lemma run_url_blank:
  assumes "\<forall>c \<in> set (drop i t). js_space c"
  shows "run urlRegex t ([], i) = []"
proof (cases "drop i t")
  case Nil
  then have "\<not> url_at t i" by (simp add: url_at_def)
  then show ?thesis using run_url [of t "[]" i] by blast
next
  case (Cons c rest)
  with assms have "js_space c" by simp
  then have "c \<noteq> CHR ''h''" by (auto simp: js_space_def)
  with Cons show ?thesis by (rule run_url_other)
qed

lemma split_loop_tail:
  assumes "\<forall>i \<ge> q. run r t ([], i) = []"
  shows "split_loop r t p q = [substring t p (length t)]"
  using assms
proof (induction r t p q rule: split_loop.induct)
  case (1 r t p q)
  show ?case
  proof (cases "q < length t")
    case True
    have here: "run r t ([], q) = []" using "1.prems" by simp
    have "split_loop r t p (Suc q) = [substring t p (length t)]"
      using "1.IH"(1) [OF True here] "1.prems" by simp
    then show ?thesis
      using True here by (subst split_loop.simps) simp
  next
    case False
    then show ?thesis by (subst split_loop.simps) simp
  qed
qed

lemma plain_part_url_a: "odd idx \<Longrightarrow> plain_part idx ''http://a'' = [url_a]"
proof -
  assume "odd idx"
  then have o: "idx mod 2 \<noteq> 0" by presburger
  have t: "trim ''http://a'' = ''http://a''" by code_simp
  have y: "rx_match youtubeRegex ''http://a'' = None" by code_simp
  have e: "rx_match imageExtRegex ''http://a'' = None" by code_simp
  have s: "shorten ''http://a'' = ''http://a''" by code_simp
  show ?thesis
    using o by (simp only: plain_part_def t y e s url_a_def Let_def if_False option.case
        not_False_eq_True refl if_True simp_thms)
qed

lemma plain_part_blank: "even idx \<Longrightarrow> \<forall>c \<in> set x. js_space c \<Longrightarrow> plain_part idx x = []"
  by (simp add: plain_part_def trim_eq_Nil)

lemma split_urls:
  assumes z: "\<forall>c \<in> set z. js_space c"
  shows "p \<le> length pre \<Longrightarrow> \<forall>c \<in> set (drop p pre). js_space c \<Longrightarrow> even idx \<Longrightarrow>
     plain_parts idx
       (split_loop urlRegex (pre @ concat (replicate n ''http://a '') @ z) p (length pre))
     = replicate n url_a"
proof (induction n arbitrary: pre p idx)
  case 0
  let ?t = "pre @ z"
  have "\<forall>i \<ge> length pre. run urlRegex ?t ([], i) = []"
  proof (intro allI impI)
    fix i assume "length pre \<le> i"
    then have "set (drop i ?t) \<subseteq> set z"
      by (auto dest: in_set_dropD)
    with z show "run urlRegex ?t ([], i) = []"
      by (intro run_url_blank) auto
  qed
  then have "split_loop urlRegex ?t p (length pre) = [substring ?t p (length ?t)]"
    by (rule split_loop_tail)
  moreover have "\<forall>c \<in> set (substring ?t p (length ?t)). js_space c"
    using 0 z by (auto simp: substring_def dest: in_set_dropD)
  ultimately show ?case
    using 0 by (simp add: plain_part_blank)
next
  case (Suc n)
  define rest where "rest = concat (replicate n ''http://a '') @ z"
  define t where "t = pre @ ''http://a '' @ rest"
  define q where "q = length pre"
  have whole: "pre @ concat (replicate (Suc n) ''http://a '') @ z = t"
    by (simp add: t_def rest_def)
  have len: "q + 9 \<le> length t" by (simp add: t_def q_def)
  have pq: "p \<le> q" using Suc.prems(1) by (simp add: q_def)
  have at_q: "run urlRegex t ([], q) = [([''http://a''], q + 8)]"
    by (rule run_url_a [where rest = rest]) (simp add: t_def q_def)
  have at_q8: "run urlRegex t ([], q + 8) = []"
    by (rule run_url_other [where c = "CHR '' ''" and rest = rest]) (simp_all add: t_def q_def)
  have first: "substring t p q = drop p pre"
    using pq by (simp add: substring_def max_def min_def t_def q_def)
  have e: "min (q + 8) (length t) = q + 8" using len by simp
  have ne: "q + 8 \<noteq> p" using pq by simp
  have step1: "split_loop urlRegex t p q =
      drop p pre # ''http://a'' # split_loop urlRegex t (q + 8) (q + 8)"
  proof -
    have "q < length t" using len by simp
    then show ?thesis
      by (subst split_loop.simps)
        (simp only: if_True at_q list.case prod.case Let_def e ne if_False first append.simps)
  qed
  have step2: "split_loop urlRegex t (q + 8) (q + 8) = split_loop urlRegex t (q + 8) (q + 9)"
  proof -
    have "q + 8 < length t" using len by simp
    moreover have "Suc (q + 8) = q + 9" by simp
    ultimately show ?thesis
      by (subst split_loop.simps) (simp only: if_True at_q8 list.case)
  qed
  have ih: "plain_parts (Suc (Suc idx))
      (split_loop urlRegex ((pre @ ''http://a '') @ concat (replicate n ''http://a '') @ z)
         (q + 8) (length (pre @ ''http://a '')))
      = replicate n url_a"
    using Suc.prems(3) by (intro Suc.IH) (simp_all add: js_space_def q_def)
  have l9: "length (pre @ ''http://a '') = q + 9" by (simp add: q_def)
  have tt: "(pre @ ''http://a '') @ concat (replicate n ''http://a '') @ z = t"
    by (simp add: t_def rest_def)
  have ih': "plain_parts (Suc (Suc idx)) (split_loop urlRegex t (q + 8) (q + 9)) = replicate n url_a"
    using ih by (simp only: l9 tt)
  have "plain_parts idx (split_loop urlRegex t p q) =
      plain_part idx (drop p pre) @ plain_part (Suc idx) ''http://a'' @
      plain_parts (Suc (Suc idx)) (split_loop urlRegex t (q + 8) (q + 9))"
    by (simp only: step1 step2 plain_parts.simps append_assoc)
  also have "\<dots> = url_a # replicate n url_a"
    using Suc.prems by (simp add: ih' plain_part_blank plain_part_url_a)
  finally have r: "plain_parts idx (split_loop urlRegex t p (length pre)) = replicate (Suc n) url_a"
    by (simp add: q_def)
  show ?case
    unfolding whole by (rule r)
qed

lemma link_loop_on_start: "link_loop_on max_args t 0 [] = Some (0, [])"
  by (subst link_loop_on.simps) (simp add: scan_none run_markdownLinkRegex)

lemma processTextWithLinks_on_eq:
  "processTextWithLinks_on max_args t =
     (if length (processPlainTextWithUrls t) \<le> max_args
      then Some (processPlainTextWithUrls t) else None)"
  by (simp add: processTextWithLinks_on_def link_loop_on_start push_spread_def Let_def)

lemma urls_plain:
  assumes "\<forall>c \<in> set z. js_space c"
  shows "processPlainTextWithUrls (concat (replicate n ''http://a '') @ z) = replicate n url_a"
proof (cases "concat (replicate n ''http://a '') @ z = []")
  case True
  then have n: "n = 0" by (cases n) auto
  have "run urlRegex [] ([], 0) = []"
    by (rule run_url_blank) simp
  with True n show ?thesis
    by (simp add: processPlainTextWithUrls_def rx_split_def plain_part_def trim_Nil)
next
  case False
  have "plain_parts 0 (split_loop urlRegex ([] @ concat (replicate n ''http://a '') @ z) 0 (length ([]::string)))
      = replicate n url_a"
    using assms by (intro split_urls) simp_all
  with False show ?thesis
    by (auto simp: processPlainTextWithUrls_def rx_split_def)
qed

lemma urls_single_line: "split_on (CHR 0x0A) (concat (replicate n ''http://a '')) = [concat (replicate n ''http://a '')]"
  by (rule split_on_single) auto

lemma urls_no_sentinel:
  "rx_match imageUrlRegex (concat (replicate n ''http://a '')) = None"
  "rx_match videoUrlRegex (concat (replicate n ''http://a '')) = None"
  by (cases n; simp add: imageUrlRegex_def videoUrlRegex_def sentinel_match canonicalize_def)+

lemma urls_overflow:
  assumes "max_args < n"
  shows "parseMessageContent_on max_args (concat (replicate n ''http://a '')) = None"
proof -
  let ?t = "concat (replicate n ''http://a '')"
  have n: "n \<noteq> 0" using assms by simp
  have line: "parse_line_on max_args ([], []) ?t = Some ([], ?t @ [CHR 0x0A])"
    by (simp add: parse_line_on_def other_line_on_def urls_no_sentinel)
  have "\<exists>c \<in> set ?t. \<not> js_space c"
    using n by (cases n) (auto simp: js_space_def)
  then have nb: "trim (?t @ [CHR 0x0A]) \<noteq> []"
    by (auto simp: trim_eq_Nil)
  have "processPlainTextWithUrls (?t @ [CHR 0x0A]) = replicate n url_a"
    by (rule urls_plain) (simp add: js_space_def)
  then have "processTextWithLinks_on max_args (?t @ [CHR 0x0A]) = None"
    using assms by (simp add: processTextWithLinks_on_eq)
  then have "flush_text_on max_args ([], ?t @ [CHR 0x0A]) = None"
    using nb by (simp add: flush_text_on_def)
  then show ?thesis
    using line
    by (simp add: parseMessageContent_on_def segments_of_lines_on_def urls_single_line)
qed

subsection \<open>The bounded parser returns what the parser returns\<close>

lemma flush_text_on_eq:
  "flush_text_on max_args st =
     (if trim (snd st) \<noteq> [] \<and> max_args < length (processPlainTextWithUrls (snd st))
      then None else Some (flushed st))"
  by (cases st) (auto simp: flush_text_on_def processTextWithLinks_on_eq push_spread_def flushed_def)

lemma parse_line_on_refines:
  "parse_line_on max_args st l = Some st' \<Longrightarrow> parse_line st l = Some st'"
  by (auto simp: parse_line_on_def parse_line_def other_line_on_def other_line_def
      image_line_on_def image_line_def video_line_on_def video_line_def
      flush_text_on_eq flush_text_flushed split: option.splits if_splits prod.splits)

lemma parse_lines_on_refines:
  "parse_lines_on max_args st ls = Some st' \<Longrightarrow> parse_lines st ls = Some st'"
  by (induction ls arbitrary: st) (auto split: option.splits dest: parse_line_on_refines)

lemma parseMessageContent_on_refines:
  "parseMessageContent_on max_args c = Some parts \<Longrightarrow> parseMessageContent c = Some parts"
  by (auto simp: parseMessageContent_on_def parseMessageContent_def segments_of_lines_on_def
      segments_of_lines_def flush_text_on_eq flush_text_flushed
      split: option.splits if_splits prod.splits dest: parse_lines_on_refines)

lemma urls_unbounded:
  "parseMessageContent (concat (replicate n ''http://a '')) = Some (replicate n url_a)"
proof -
  let ?t = "concat (replicate n ''http://a '')"
  have line: "parse_line ([], []) ?t = Some ([], ?t @ [CHR 0x0A])"
    by (simp add: parse_line_def other_line_def urls_no_sentinel)
  have pp: "processPlainTextWithUrls (?t @ [CHR 0x0A]) = replicate n url_a"
    by (rule urls_plain) (simp add: js_space_def)
  have c: "trim (content url_a) \<noteq> []"
    by code_simp
  have keep: "filter (\<lambda>part. trim (content part) \<noteq> []) (replicate n url_a) = replicate n url_a"
    using c by simp
  show ?thesis
  proof (cases "n = 0")
    case True
    then show ?thesis
      using line
      by (simp add: parseMessageContent_def segments_of_lines_def urls_single_line
          flush_text_flushed flushed_def trim_eq_Nil js_space_def)
  next
    case False
    then have "\<exists>c \<in> set ?t. \<not> js_space c"
      by (cases n) (auto simp: js_space_def)
    then have nb: "trim (?t @ [CHR 0x0A]) \<noteq> []"
      by (auto simp: trim_eq_Nil)
    show ?thesis
      using line nb
      by (simp add: parseMessageContent_def segments_of_lines_def urls_single_line
          flush_text_flushed flushed_def pp keep)
  qed
qed

section \<open>Text without colons\<close>

















section \<open>Properties of the parser and of the failure path\<close>



text \<open>
  C6. Every segment that \<open>parseMessageContent\<close> returns has a content that is not empty
  after trimming: the last step of the function filters the others out.
\<close>

theorem C6_no_blank_segment:
  "parseMessageContent t = Some parts \<Longrightarrow> \<forall>part \<in> set parts. trim (content part) \<noteq> []"
  by (auto simp: parseMessageContent_def segments_of_lines_def split: option.splits)

theorem C6_no_blank_segment_witness:
  "parseMessageContent ''Video URL:  '' = Some []
   \<and> parseMessageContent ''hello'' = Some [text_part ''hello<br/>'']
   \<and> trim (content (text_part ''hello<br/>'')) \<noteq> []"
proof -
  have a: "parseMessageContent ''Video URL:  '' = Some []"
    by code_simp
  have h: "parseMessageContent ''hello'' = Some [text_part ''hello<br/>'']"
    by code_simp
  show ?thesis
    using a h C6_no_blank_segment [OF h] by simp
qed

text \<open>
  C5 fails in the code. The parser spreads the segments of a whole text block into one
  call of \<^verbatim>\<open>push\<close>. The text of \<open>n\<close> copies of \<^verbatim>\<open>http://a\<close> and a space is one
  block of \<open>n\<close> link segments: on an engine whose bound on the arguments of a call is
  below \<open>n\<close> the parser throws, although the text is well formed and the parser, were
  the bound not there, would return the \<open>n\<close> segments.
\<close>

theorem C5_spread_overflow:
  assumes "max_args < n"
  shows "parseMessageContent_on max_args (concat (replicate n ''http://a '')) = None
    \<and> parseMessageContent (concat (replicate n ''http://a '')) = Some (replicate n url_a)"
  using assms by (simp add: urls_overflow urls_unbounded)

theorem C5_spread_overflow_witness:
  "parseMessageContent_on 65536 (concat (replicate 130000 ''http://a '')) = None"
  using C5_spread_overflow [of 65536 130000] by simp

text \<open>
  C3, as stated, fails on a line whose value ends in a carriage return: the value trims to
  \<^verbatim>\<open>N/A\<close>, but \<^verbatim>\<open>.\<close> refuses the carriage return, the sentinel pattern does not
  match, and the line goes into the text block.
\<close>

theorem C3_counterexample:
  "sentinel_prefix ''Image URL: '' ''Image URL: ''
   \<and> trim (''N/A'' @ [CHR 0x0D]) = ''N/A''
   \<and> parseMessageContent (''Image URL: '' @ ''N/A'' @ [CHR 0x0D])
       = Some [text_part (''Image URL: N/A'' @ [CHR 0x0D] @ ''<br/>'')]"
  by code_simp

text \<open>
  C3, amended. A line made of a sentinel (\<^verbatim>\<open>Image URL: \<close> or \<^verbatim>\<open>Video URL: \<close>, in
  any letter case) and a value that holds no line terminator and trims to \<^verbatim>\<open>N/A\<close>
  leaves the state of the parser as it was. So the segments of an input are those of the
  input without that line, wherever the line stands: alone, first, last or between other
  lines.
\<close>

theorem C3_na_line_dropped:
  assumes "sentinel_prefix ''Image URL: '' p \<or> sentinel_prefix ''Video URL: '' p"
    and "\<forall>c \<in> set v. dot c"
    and "trim v = ''N/A''"
  shows "parse_line st (p @ v) = Some st
    \<and> segments_of_lines (pre @ (p @ v) # post) = segments_of_lines (pre @ post)
    \<and> parseMessageContent (p @ v) = Some []
    \<and> parseMessageContent (p @ v @ [CHR 0x0A] @ b) = parseMessageContent b
    \<and> parseMessageContent (a @ [CHR 0x0A] @ p @ v) = parseMessageContent a
    \<and> parseMessageContent (a @ [CHR 0x0A] @ p @ v @ [CHR 0x0A] @ b)
        = parseMessageContent (a @ [CHR 0x0A] @ b)"
proof -
  have line: "parse_line st' (p @ v) = Some st'" for st'
    using assms by (auto simp: parse_line_image_na parse_line_video_na)
  have single: "split_on (CHR 0x0A) (p @ v) = [p @ v]"
    using assms(1,2) by (rule sentinel_line_single)
  have drop_line: "segments_of_lines (xs @ (p @ v) # ys) = segments_of_lines (xs @ ys)" for xs ys
    using line by (rule segments_drop_line)
  have alone: "parseMessageContent (p @ v) = Some []"
    using drop_line [of "[]" "[]"]
    by (simp add: parseMessageContent_lines single segments_of_lines_def flush_text_flushed
        flushed_def trim_Nil)
  have first: "parseMessageContent (p @ v @ [CHR 0x0A] @ b) = parseMessageContent b"
    using drop_line [of "[]" "split_on (CHR 0x0A) b"] split_on_append [of "CHR 0x0A" "p @ v" b]
    by (simp add: parseMessageContent_lines single)
  have last: "parseMessageContent (a @ [CHR 0x0A] @ p @ v) = parseMessageContent a"
    using drop_line [of "split_on (CHR 0x0A) a" "[]"] split_on_append [of "CHR 0x0A" a "p @ v"]
    by (simp add: parseMessageContent_lines single)
  have middle: "parseMessageContent (a @ [CHR 0x0A] @ p @ v @ [CHR 0x0A] @ b)
        = parseMessageContent (a @ [CHR 0x0A] @ b)"
    using drop_line [of "split_on (CHR 0x0A) a" "split_on (CHR 0x0A) b"]
      split_on_append [of "CHR 0x0A" a "(p @ v) @ CHR 0x0A # b"]
      split_on_append [of "CHR 0x0A" "p @ v" b]
      split_on_append [of "CHR 0x0A" a b]
    by (simp add: parseMessageContent_lines single)
  show ?thesis
    using line drop_line alone first last middle by simp
qed

theorem C3_na_line_dropped_witness:
  "sentinel_prefix ''Video URL: '' ''video url: ''
   \<and> trim '' N/A  '' = ''N/A''
   \<and> parseMessageContent (''video url: '' @ '' N/A  '') = Some []
   \<and> parseMessageContent (''intro'' @ [CHR 0x0A] @ ''video url: '' @ '' N/A  '' @ [CHR 0x0A] @ ''outro'')
       = parseMessageContent (''intro'' @ [CHR 0x0A] @ ''outro'')
   \<and> parseMessageContent (''intro'' @ [CHR 0x0A] @ ''outro'') = Some [text_part ''intro<br/>outro<br/>'']"
proof -
  have p: "sentinel_prefix ''Image URL: '' ''video url: '' \<or> sentinel_prefix ''Video URL: '' ''video url: ''"
    by (simp add: sentinel_prefix_def canonicalize_def)
  have v: "\<forall>c \<in> set '' N/A  ''. dot c"
    by (simp add: dot_def line_terminator_def)
  have t: "trim '' N/A  '' = ''N/A''"
    by code_simp
  have r: "parseMessageContent (''intro'' @ [CHR 0x0A] @ ''outro'') = Some [text_part ''intro<br/>outro<br/>'']"
    by code_simp
  have s: "sentinel_prefix ''Video URL: '' ''video url: ''"
    by (simp add: sentinel_prefix_def canonicalize_def)
  show ?thesis
    using C3_na_line_dropped [OF p v t, of _ _ _ "''outro''" "''intro''"] t r s by simp
qed










text \<open>
  C1 fails in the code. The comment above the pattern of \<open>processTextWithLinks\<close>
  announces markdown links \<^verbatim>\<open>[text](url)\<close>, but the pattern has \<^verbatim>\<open>$$\<close> where the
  escaped parentheses belong and finds no match in
  \<^verbatim>\<open>See [docs](https://example.com/reference-guide-that-is-quite-long-indeed) now\<close>.
  The scanner of bare URLs then takes the closing parenthesis into the URL and leaves
  \<^verbatim>\<open>[docs](\<close> in the text before it: the segments are not \<^verbatim>\<open>text("See ")\<close>, a link
  to the URL and \<^verbatim>\<open>text(" now")\<close>.
\<close>

theorem C1_markdown_link_not_parsed:
  "scan markdownLinkRegex
     ''See [docs](https://example.com/reference-guide-that-is-quite-long-indeed) now'' 0 = None
   \<and> parseMessageContent
     ''See [docs](https://example.com/reference-guide-that-is-quite-long-indeed) now''
   = Some [text_part ''See [docs]('',
           link_part ''https://example.com/reference-guide-that-is-quite-long-indeed)''
             (Some ''https://example.com/reference-guide-that-is-qui...''),
           text_part ''now<br/>'']
   \<and> parseMessageContent
     ''See [docs](https://example.com/reference-guide-that-is-quite-long-indeed) now''
   \<noteq> Some [text_part ''See '',
            link_part ''https://example.com/reference-guide-that-is-quite-long-indeed''
              (Some (take 47 ''https://example.com/reference-guide-that-is-quite-long-indeed'' @ ''...'')),
            text_part '' now'']"
proof -
  have "scan markdownLinkRegex
     ''See [docs](https://example.com/reference-guide-that-is-quite-long-indeed) now'' 0 = None"
    by (rule scan_none) (rule run_markdownLinkRegex)
  moreover have "parseMessageContent
     ''See [docs](https://example.com/reference-guide-that-is-quite-long-indeed) now''
   = Some [text_part ''See [docs]('',
           link_part ''https://example.com/reference-guide-that-is-quite-long-indeed)''
             (Some ''https://example.com/reference-guide-that-is-qui...''),
           text_part ''now<br/>'']
   \<and> parseMessageContent
     ''See [docs](https://example.com/reference-guide-that-is-quite-long-indeed) now''
   \<noteq> Some [text_part ''See '',
            link_part ''https://example.com/reference-guide-that-is-quite-long-indeed''
              (Some (take 47 ''https://example.com/reference-guide-that-is-quite-long-indeed'' @ ''...'')),
            text_part '' now'']"
    by code_simp
  ultimately show ?thesis
    by (rule conjI)
qed

text \<open>
  C7. Whenever the POST settles as a failure (the fetch is rejected, the status is outside
  200 to 299, or the body does not parse), the state is left with exactly one more
  message, appended behind the messages that were there, unchanged: an assistant message
  whose content is the fixed apology. The busy flag is cleared. Over a whole run of
  \<open>sendMessage\<close> that passes the guard, the messages appended are the user's message and
  this one.
\<close>

theorem C7_failure_message:
  assumes "failed res"
  shows "messages (sendMessage_settle res now stamp st) = messages st @ [errorMessage now stamp]
    \<and> msg_content (errorMessage now stamp) = JStr ''Sorry, there was an error processing your request.''
    \<and> \<not> isUser (errorMessage now stamp)
    \<and> \<not> isLoading (sendMessage_settle res now stamp st)
    \<and> (trim (inputMessage st) \<noteq> [] \<and> \<not> isLoading st \<longrightarrow>
         messages (sendMessage now0 stamp0 res now stamp st) =
           messages st @
             [\<lparr>msg_id = ''user-'' @ decimal now0, msg_content = JStr (trim (inputMessage st)),
               isUser = True, timestamp = stamp0, rawData = None\<rparr>,
              errorMessage now stamp]
         \<and> \<not> isLoading (sendMessage now0 stamp0 res now stamp st))"
  using assms
  by (cases res)
     (auto simp: sendMessage_settle_def sendMessage_try_def sendMessage_def sendMessage_begin_def
       errorMessage_def Let_def split: option.splits)

theorem C7_failure_message_witness:
  "failed (Response 500 None)
   \<and> messages (sendMessage 17 18 (Response 500 None) 42 43
        \<lparr>inputMessage = '' hi '', isLoading = False, messages = [], sessionId = JStr []\<rparr>)
      = [\<lparr>msg_id = ''user-17'', msg_content = JStr ''hi'', isUser = True, timestamp = 18,
           rawData = None\<rparr>,
         \<lparr>msg_id = ''error-42'',
           msg_content = JStr ''Sorry, there was an error processing your request.'',
           isUser = False, timestamp = 43, rawData = None\<rparr>]
   \<and> \<not> isLoading (sendMessage 17 18 (Response 500 None) 42 43
        \<lparr>inputMessage = '' hi '', isLoading = False, messages = [], sessionId = JStr []\<rparr>)"
proof -
  have f: "failed (Response 500 None)" by simp
  have t: "trim '' hi '' = ''hi''" by code_simp
  have d: "decimal 17 = ''17''" "decimal 42 = ''42''" by code_simp+
  show ?thesis
    using C7_failure_message [OF f, of 42 43
        "\<lparr>inputMessage = '' hi '', isLoading = False, messages = [], sessionId = JStr []\<rparr>" 17 18]
    by (simp add: t d errorMessage_def)
qed




end
